theory Spec2Isabelle
  imports Main "HOL-Library.Word"
begin

unbundle bit_operations_syntax

section \<open>Data model of crlset.go\<close>

type_synonym byte = "8 word"

text \<open>
  The struct \<open>crlSetHeader\<close> of the source (the JSON header of a CRLSet file).
  Go strings are kept as \<open>string\<close>.
\<close>

record crlSetHeader =
  Sequence :: int
  NumParents :: int
  BlockedSPKIs :: "string list"
  KnownInterceptionSPKIs :: "string list"
  BlockedInterceptionSPKIs :: "string list"

text \<open>
  Every function of the source reports a failure by one message on the error stream and
  the result \<open>false\<close>. Each message is one constructor:
  \<^item> \<open>FailedToReadCRLSet\<close>: "Failed to read CRLSet: ..."
  \<^item> \<open>TruncatedAtHeaderLength\<close>: "CRLSet truncated at header length"
  \<^item> \<open>TruncatedAtHeader\<close>: "CRLSet truncated at header"
  \<^item> \<open>FailedToParseHeader\<close>: "Failed to parse header: ..."
  \<^item> \<open>FailedToReadCertificate\<close>: "Failed to read certificate: ..."
  \<^item> \<open>FailedToParseCertificate\<close>: "Failed to parse certificate: ..."
  \<^item> \<open>TruncatedAtSPKIHash\<close>: "CRLSet truncated at SPKI hash"
  \<^item> \<open>TruncatedAtSerialCount\<close>: "CRLSet truncated at serial count"
  \<^item> \<open>TruncatedAtSerialLength\<close>: "CRLSet truncated at serial length"
  \<^item> \<open>TruncatedAtSerial\<close>: "CRLSet truncated at serial"
  \<^item> \<open>FailedToParseCRXHeader\<close>: "Failed to parse CRX header: ..."
  \<^item> \<open>DoesntLookLikeACRX\<close>: "Downloaded file doesn't look like a CRX"
\<close>

datatype error =
    FailedToReadCRLSet
  | TruncatedAtHeaderLength
  | TruncatedAtHeader
  | FailedToParseHeader
  | FailedToReadCertificate
  | FailedToParseCertificate
  | TruncatedAtSPKIHash
  | TruncatedAtSerialCount
  | TruncatedAtSerialLength
  | TruncatedAtSerial
  | FailedToParseCRXHeader
  | DoesntLookLikeACRX

text \<open>
  What \<open>dump\<close> writes to the standard stream, one constructor for each of its two
  \<open>Printf\<close> calls, holding the byte strings that the call formats in hexadecimal:
  \<open>Record current_spki serial\<close> for the unfiltered line and \<open>Serial serial\<close> for the
  filtered one.
\<close>

datatype line =
    Record "byte list" "byte list"
  | Serial "byte list"

section \<open>Collaborators outside the repository\<close>

text \<open>
  The file system, the JSON decoder, the certificate parser, SHA-256 and base64 belong to
  Go's standard library. They are parameters of the model:
  \<^item> \<open>readFile\<close>: \<open>ioutil.ReadFile\<close>, \<open>None\<close> when it returns an error;
  \<^item> \<open>jsonValue\<close>: what \<open>json.Unmarshal\<close> stores into a zero \<open>crlSetHeader\<close> from an
    input that holds a JSON value, \<open>None\<close> when it returns an error;
  \<^item> \<open>certificateSPKI\<close>: \<open>pem.Decode\<close> (with the fall-back to the raw bytes) followed by
    \<open>x509.ParseCertificate\<close>, giving \<open>RawSubjectPublicKeyInfo\<close>, \<open>None\<close> on an error;
  \<^item> \<open>sha256sum\<close>: the digest written by \<open>sha256.New\<close>, \<open>Write\<close> and \<open>Sum(nil)\<close>;
  \<^item> \<open>base64Decode\<close>: \<open>base64.StdEncoding.DecodeString\<close>, \<open>None\<close> on an error.
\<close>

record extern =
  readFile :: "string \<Rightarrow> byte list option"
  jsonValue :: "byte list \<Rightarrow> crlSetHeader option"
  certificateSPKI :: "byte list \<Rightarrow> byte list option"
  sha256sum :: "byte list \<Rightarrow> byte list"
  base64Decode :: "string \<Rightarrow> byte list option"

text \<open>
  One fact of \<open>encoding/json\<close> is fixed in the model, since the outcome of decoding a
  header of length 0 depends on it: \<open>json.Unmarshal\<close> validates the whole input before it
  stores anything, and an input that holds no JSON value at all (empty, or only the white
  space characters space, tab, carriage return and line feed) is rejected with
  "unexpected end of JSON input". Every other input is left to \<open>jsonValue\<close>.
\<close>

definition isSpace :: "byte \<Rightarrow> bool" where
  "isSpace b = (b = 0x20 \<or> b = 0x09 \<or> b = 0x0D \<or> b = 0x0A)"

definition json_Unmarshal :: "extern \<Rightarrow> byte list \<Rightarrow> crlSetHeader option" where
  "json_Unmarshal ext data = (if list_all isSpace data then None else jsonValue ext data)"

section \<open>getHeader\<close>

text \<open>
  \<open>headerLen := int(c[0]) | int(c[1])<<8\<close>, then the slices \<open>c[:headerLen]\<close> and
  \<open>c[headerLen:]\<close>, each guarded by the length test in front of it.
\<close>

definition getHeader :: "extern \<Rightarrow> string \<Rightarrow> error + (crlSetHeader \<times> byte list)" where
  "getHeader ext filename =
     (case readFile ext filename of
        None \<Rightarrow> Inl FailedToReadCRLSet
      | Some c \<Rightarrow>
          if length c < 2 then Inl TruncatedAtHeaderLength
          else
            let headerLen = unat (c ! 0) OR push_bit 8 (unat (c ! 1));
                c1 = drop 2 c
            in if length c1 < headerLen then Inl TruncatedAtHeader
               else
                 let headerBytes = take headerLen c1;
                     c2 = drop headerLen c1
                 in (case json_Unmarshal ext headerBytes of
                       None \<Rightarrow> Inl FailedToParseHeader
                     | Some header \<Rightarrow> Inr (header, c2)))"

section \<open>dump\<close>

definition spkiHashLen :: nat where
  "spkiHashLen = 32"

text \<open>
  The inner loop \<open>for i := uint32(0); i < numSerials; i++\<close>. It returns the lines written
  and either the error at which \<open>dump\<close> returns \<open>false\<close> or the cursor \<open>c\<close> left for the
  next block.
\<close>

function dump_serials ::
  "byte list \<Rightarrow> bool \<Rightarrow> byte list \<Rightarrow> 32 word \<Rightarrow> 32 word \<Rightarrow> byte list
     \<Rightarrow> line list \<times> (error + byte list)" where
  "dump_serials spki spkiMatches current_spki numSerials i c =
     (if i < numSerials then
        if length c < 1 then ([], Inl TruncatedAtSerialLength)
        else
          let serialLen = unat (c ! 0);
              c1 = drop 1 c
          in if length c1 < serialLen then ([], Inl TruncatedAtSerial)
             else
               let out = (if length spki = 0 then [Record current_spki (take serialLen c1)]
                          else if spkiMatches then [Serial (take serialLen c1)]
                          else []);
                   (out', r) = dump_serials spki spkiMatches current_spki numSerials (i + 1)
                                 (drop serialLen c1)
               in (out @ out', r)
      else ([], Inr c))"
  by pat_completeness auto

lemma unat_inc_below:
  assumes "i < (n::32 word)"
  shows "unat (i + 1) = Suc (unat i)"
proof -
  have "unat i < unat n" using assms by (simp add: word_less_nat_alt)
  moreover have "unat n < 2 ^ 32" using unsigned_less [of n] by simp
  ultimately have "unat i + 1 < 2 ^ 32" by simp
  then show ?thesis by (simp add: unat_word_ariths)
qed

termination dump_serials
  by (relation "measure (\<lambda>(spki, m, cur, n, i, c). unat n - unat i)")
     (auto simp: unat_inc_below word_less_nat_alt)

declare dump_serials.simps [simp del]

lemma dump_serials_length:
  "dump_serials spki m cur n i c = (out, Inr c') \<Longrightarrow> length c' \<le> length c"
proof (induction spki m cur n i c arbitrary: out rule: dump_serials.induct)
  case (1 spki m cur n i c)
  show ?case
  proof (cases "i < n")
    case False
    with "1.prems" show ?thesis by (simp add: dump_serials.simps [of _ _ _ n i])
  next
    case True
    note lt = this
    show ?thesis
    proof (cases "length c < 1 \<or> length (drop 1 c) < unat (c ! 0)")
      case True
      with lt "1.prems" show ?thesis
        by (auto simp: dump_serials.simps [of _ _ _ n i] Let_def split: if_splits)
    next
      case False
      obtain o' r where rec:
        "dump_serials spki m cur n (i + 1) (drop (unat (c ! 0)) (drop 1 c)) = (o', r)"
        by (cases "dump_serials spki m cur n (i + 1) (drop (unat (c ! 0)) (drop 1 c))")
      with lt False "1.prems" have r: "r = Inr c'"
        by (simp add: dump_serials.simps [of _ _ _ n i] Let_def)
      have "length c' \<le> length (drop (unat (c ! 0)) (drop 1 c))"
        using "1.IH" [OF lt _ refl refl _ refl, of o'] False rec r by simp
      then show ?thesis by simp
    qed
  qed
qed

text \<open>
  The outer loop \<open>for len(c) > 0\<close>: one block for each round, and \<open>return true\<close>
  (\<open>None\<close>) once the cursor is empty.
\<close>

function dump_loop :: "byte list \<Rightarrow> byte list \<Rightarrow> line list \<times> error option" where
  "dump_loop spki c =
     (if length c > 0 then
        if length c < spkiHashLen then ([], Some TruncatedAtSPKIHash)
        else
          let spkiMatches = (spki = take spkiHashLen c);
              current_spki = (if length spki = 0 then take spkiHashLen c else []);
              c1 = drop spkiHashLen c
          in if length c1 < 4 then ([], Some TruncatedAtSerialCount)
             else
               let numSerials = ucast (c1 ! 0) OR push_bit 8 (ucast (c1 ! 1))
                                  OR push_bit 16 (ucast (c1 ! 2)) OR push_bit 24 (ucast (c1 ! 3));
                   c2 = drop 4 c1
               in case dump_serials spki spkiMatches current_spki numSerials 0 c2 of
                    (out, Inl e) \<Rightarrow> (out, Some e)
                  | (out, Inr c3) \<Rightarrow>
                      (let (out', r) = dump_loop spki c3 in (out @ out', r))
      else ([], None))"
  by pat_completeness auto

termination dump_loop
  by (relation "measure (\<lambda>(spki, c). length c)")
     (auto simp: spkiHashLen_def dest!: dump_serials_length [OF sym])

declare dump_loop.simps [simp del]

text \<open>
  \<open>dump(filename, certificateFilename)\<close>: the header, then the optional certificate whose
  SPKI digest becomes the filter, then the loop over the body. \<open>spki\<close> stays the nil
  slice when no certificate file is named.
\<close>

definition dump :: "extern \<Rightarrow> string \<Rightarrow> string \<Rightarrow> line list \<times> error option" where
  "dump ext filename certificateFilename =
     (case getHeader ext filename of
        Inl e \<Rightarrow> ([], Some e)
      | Inr (header, c) \<Rightarrow>
          if length certificateFilename > 0 then
            (case readFile ext certificateFilename of
               None \<Rightarrow> ([], Some FailedToReadCertificate)
             | Some certBytes \<Rightarrow>
                 (case certificateSPKI ext certBytes of
                    None \<Rightarrow> ([], Some FailedToParseCertificate)
                  | Some rawSPKI \<Rightarrow> dump_loop (sha256sum ext rawSPKI) c))
          else dump_loop [] c)"

section \<open>dumpSPKIs\<close>

text \<open>
  \<open>dumpSPKIs\<close> walks the fields of the header by reflection. \<open>headerFields\<close> is what
  \<open>NumField\<close>, \<open>Type().Field(i)\<close> and \<open>Field(i)\<close> give for \<open>crlSetHeader\<close>: the
  fields in the order of their declaration, each with its name and its value, whose
  constructor tells the type (\<open>int\<close> or \<open>[]string\<close>).
\<close>

datatype fieldValue =
    IntValue int
  | StringSliceValue "string list"

definition headerFields :: "crlSetHeader \<Rightarrow> (string \<times> fieldValue) list" where
  "headerFields header =
     [(''Sequence'', IntValue (Sequence header)),
      (''NumParents'', IntValue (NumParents header)),
      (''BlockedSPKIs'', StringSliceValue (BlockedSPKIs header)),
      (''KnownInterceptionSPKIs'', StringSliceValue (KnownInterceptionSPKIs header)),
      (''BlockedInterceptionSPKIs'', StringSliceValue (BlockedInterceptionSPKIs header))]"

text \<open>\<open>strings.HasSuffix\<close>.\<close>

definition HasSuffix :: "string \<Rightarrow> string \<Rightarrow> bool" where
  "HasSuffix s suffix =
     (length s \<ge> length suffix \<and> drop (length s - length suffix) s = suffix)"

text \<open>
  What \<open>dumpSPKIs\<close> writes, in the order of writing: \<open>SPKILine spkiBytes\<close> is the line
  on the standard stream that holds the decoded bytes in hexadecimal; \<open>NotAValidSPKI spki\<close>
  is the diagnostic "... is not a valid SPKI" and \<open>NotAStringSlice fieldName\<close> the
  diagnostic "field ... is a ... and not the expected []string", both on the error stream.
\<close>

datatype spkiOutput =
    SPKILine "byte list"
  | NotAValidSPKI string
  | NotAStringSlice string

text \<open>The inner loop \<open>for _, spki := range spkis\<close>.\<close>

fun dumpSPKIs_range :: "extern \<Rightarrow> string list \<Rightarrow> spkiOutput list" where
  "dumpSPKIs_range ext [] = []"
| "dumpSPKIs_range ext (spki # spkis) =
     (case base64Decode ext spki of
        None \<Rightarrow> NotAValidSPKI spki # dumpSPKIs_range ext spkis
      | Some spkiBytes \<Rightarrow> SPKILine spkiBytes # dumpSPKIs_range ext spkis)"

text \<open>The outer loop \<open>for i := 0; i < headerStruct.NumField(); i++\<close>.\<close>

fun dumpSPKIs_fields :: "extern \<Rightarrow> (string \<times> fieldValue) list \<Rightarrow> spkiOutput list" where
  "dumpSPKIs_fields ext [] = []"
| "dumpSPKIs_fields ext ((fieldName, v) # more_fields) =
     (if \<not> HasSuffix fieldName ''SPKIs'' then dumpSPKIs_fields ext more_fields
      else
        (case v of
           IntValue n \<Rightarrow> NotAStringSlice fieldName # dumpSPKIs_fields ext more_fields
         | StringSliceValue spkis \<Rightarrow>
             dumpSPKIs_range ext spkis @ dumpSPKIs_fields ext more_fields))"

definition dumpSPKIs :: "extern \<Rightarrow> string \<Rightarrow> spkiOutput list \<times> error option" where
  "dumpSPKIs ext filename =
     (case getHeader ext filename of
        Inl e \<Rightarrow> ([], Some e)
      | Inr (header, rest) \<Rightarrow> (dumpSPKIs_fields ext (headerFields header), None))"

section \<open>The CRX container in fetch\<close>

text \<open>The struct \<open>crxHeader\<close>.\<close>

record crxHeader =
  Magic :: "byte list"
  Version :: "32 word"
  HeaderLen :: "32 word"

text \<open>
  \<open>binary.Read(crx, binary.LittleEndian, &header)\<close> fills the 12 bytes of the struct
  from the buffer or fails when the buffer holds fewer; the buffer is left after them.
\<close>

definition uint32le :: "byte list \<Rightarrow> 32 word" where
  "uint32le b = ucast (b ! 0) OR push_bit 8 (ucast (b ! 1))
                  OR push_bit 16 (ucast (b ! 2)) OR push_bit 24 (ucast (b ! 3))"

definition binary_Read :: "byte list \<Rightarrow> (crxHeader \<times> byte list) option" where
  "binary_Read crx =
     (if length crx < 12 then None
      else Some (\<lparr>Magic = take 4 crx,
                  Version = uint32le (take 4 (drop 4 crx)),
                  HeaderLen = uint32le (take 4 (drop 8 crx))\<rparr>,
                 drop 12 crx))"

text \<open>The conversion \<open>int(header.HeaderLen)\<close>, with the 64-bit \<open>int\<close> of a 64-bit platform.\<close>

definition int_of_uint32 :: "32 word \<Rightarrow> int" where
  "int_of_uint32 w = sint (ucast w :: 64 word)"

text \<open>The magic \<open>[]byte("Cr24")\<close>.\<close>

definition Cr24 :: "byte list" where
  "Cr24 = [0x43, 0x72, 0x32, 0x34]"

text \<open>
  The part of \<open>fetch\<close> between the download and the ZIP reader: from the bytes of the
  reply \<open>crxBytes\<close> to \<open>zipBytes\<close>, or the message at which \<open>fetch\<close> returns \<open>false\<close>.
  \<open>crx.Next(n)\<close> gives the next \<open>n\<close> bytes of the buffer, or all of them when it holds
  fewer.
\<close>

definition fetch_crx :: "byte list \<Rightarrow> error + byte list" where
  "fetch_crx crxBytes =
     (case binary_Read crxBytes of
        None \<Rightarrow> Inl FailedToParseCRXHeader
      | Some (header, crx) \<Rightarrow>
          if Magic header \<noteq> Cr24 \<or> int_of_uint32 (HeaderLen header) < 0
          then Inl DoesntLookLikeACRX
          else
            let protoHeader = take (nat (int_of_uint32 (HeaderLen header))) crx;
                crx1 = drop (nat (int_of_uint32 (HeaderLen header))) crx
            in if int (length protoHeader) \<noteq> int_of_uint32 (HeaderLen header)
               then Inl DoesntLookLikeACRX
               else Inr crx1)"

section \<open>zipReader\<close>

text \<open>
  \<open>ReadAt\<close> on a \<open>zipReader\<close> \<open>z\<close>, with the 64-bit \<open>int\<close> of a 64-bit platform, so
  that \<open>int(pos)\<close> is \<open>pos\<close>. The result is \<open>None\<close> where the slice expression
  \<open>z[int(pos):]\<close> panics (a bound beyond \<open>len(z)\<close>); otherwise it holds \<open>p\<close> after
  \<open>copy\<close>, the number of bytes copied and the error, which is \<open>None\<close> for \<open>nil\<close>.
\<close>

definition ReadAt ::
  "byte list \<Rightarrow> byte list \<Rightarrow> 64 word \<Rightarrow> (byte list \<times> nat \<times> error option) option" where
  "ReadAt z p pos =
     (if sint pos < 0 then Some (p, 0, None)
      else if nat (sint pos) > length z then None
      else
        let src = drop (nat (sint pos)) z;
            n = min (length p) (length src)
        in Some (take n src @ drop n p, n, None))"

section \<open>The layout of a CRLSet body\<close>

text \<open>
  The body as the specification lays it out: a sequence of blocks, each a fingerprint of
  32 bytes, a count as an unsigned 32-bit little-endian number, and that many entries,
  each a length byte followed by that many serial bytes. The decoder of the source is
  compared with this encoder.
\<close>

record spkiBlock =
  fingerprint :: "byte list"
  serials :: "byte list list"

definition le32 :: "32 word \<Rightarrow> byte list" where
  "le32 n = [ucast n, ucast (drop_bit 8 n), ucast (drop_bit 16 n), ucast (drop_bit 24 n)]"

definition encode_entry :: "byte list \<Rightarrow> byte list" where
  "encode_entry s = of_nat (length s) # s"

definition encode_entries :: "byte list list \<Rightarrow> byte list" where
  "encode_entries ss = concat (map encode_entry ss)"

definition encode_block :: "spkiBlock \<Rightarrow> byte list" where
  "encode_block b =
     fingerprint b @ le32 (of_nat (length (serials b))) @ encode_entries (serials b)"

definition encode_body :: "spkiBlock list \<Rightarrow> byte list" where
  "encode_body bs = concat (map encode_block bs)"

text \<open>The bytes of one block: the fingerprint, the count and the entries.\<close>

definition block_size :: "spkiBlock \<Rightarrow> nat" where
  "block_size b = 32 + 4 + sum_list (map (\<lambda>s. 1 + length s) (serials b))"

definition valid_serial :: "byte list \<Rightarrow> bool" where
  "valid_serial s = (length s \<le> 255)"

definition valid_block :: "spkiBlock \<Rightarrow> bool" where
  "valid_block b =
     (length (fingerprint b) = 32 \<and> length (serials b) < 2 ^ 32
      \<and> list_all valid_serial (serials b))"

text \<open>
  The lines that a dump owes to one entry list and to one block: a record for each
  serial when there is no filter, the serial alone when the filter equals the
  fingerprint, nothing otherwise.
\<close>

definition entry_lines :: "byte list \<Rightarrow> bool \<Rightarrow> byte list \<Rightarrow> byte list list \<Rightarrow> line list" where
  "entry_lines spki spkiMatches current_spki ss =
     (if length spki = 0 then map (Record current_spki) ss
      else if spkiMatches then map Serial ss
      else [])"

definition block_lines :: "byte list \<Rightarrow> spkiBlock \<Rightarrow> line list" where
  "block_lines spki b =
     entry_lines spki (spki = fingerprint b)
       (if length spki = 0 then fingerprint b else []) (serials b)"

section \<open>Sample inputs\<close>

text \<open>
  Concrete collaborators for the examples: a file system given as a table, a JSON decoder
  and a base64 decoder given as tables of the inputs they accept, a certificate parser
  that takes the file as the public-key info, and a hash with a fixed digest. The
  examples use entries that agree with Go's library: the JSON text \<open>{}\<close> gives the zero
  header, the base64 strings \<open>AAAA\<close> and \<open>/w==\<close> give \<open>00 00 00\<close> and \<open>FF\<close>, and
  \<open>!\<close> is not base64.
\<close>

definition bytes_of :: "string \<Rightarrow> byte list" where
  "bytes_of s = map (\<lambda>ch. of_nat (of_char ch)) s"

definition zero_header :: crlSetHeader where
  "zero_header = \<lparr>Sequence = 0, NumParents = 0, BlockedSPKIs = [],
                   KnownInterceptionSPKIs = [], BlockedInterceptionSPKIs = []\<rparr>"

definition sample_extern ::
  "(string \<times> byte list) list \<Rightarrow> (byte list \<times> crlSetHeader) list \<Rightarrow> byte list
     \<Rightarrow> (string \<times> byte list) list \<Rightarrow> extern" where
  "sample_extern files headers digest spkis =
     \<lparr>readFile = map_of files, jsonValue = map_of headers, certificateSPKI = Some,
      sha256sum = (\<lambda>raw. digest), base64Decode = map_of spkis\<rparr>"

text \<open>A CRLSet file whose header is the JSON text \<open>{}\<close>, of length 2.\<close>

definition sample_crlset :: "byte list \<Rightarrow> byte list" where
  "sample_crlset body = [2, 0, 0x7B, 0x7D] @ body"

text \<open>A block whose fingerprint is 32 times the byte \<open>x\<close>.\<close>

definition sample_block :: "byte \<Rightarrow> byte list list \<Rightarrow> spkiBlock" where
  "sample_block x ss = \<lparr>fingerprint = replicate 32 x, serials = ss\<rparr>"

text \<open>
  A header with policy lists, as JSON text and as \<open>json.Unmarshal\<close> stores it. One of
  its three entries is not base64.
\<close>

definition policy_json :: string where
  "policy_json =
     ''{\"Sequence\":1,\"BlockedSPKIs\":[\"AAAA\",\"!\"],\"BlockedInterceptionSPKIs\":[\"/w==\"]}''"

definition policy_header :: crlSetHeader where
  "policy_header = \<lparr>Sequence = 1, NumParents = 0, BlockedSPKIs = [''AAAA'', ''!''],
                     KnownInterceptionSPKIs = [], BlockedInterceptionSPKIs = [''/w=='']\<rparr>"

section \<open>Little-endian numbers and the encoder\<close>

lemma numSerials_le32:
  "(ucast (ucast n :: byte) OR push_bit 8 (ucast (ucast (drop_bit 8 n) :: byte))
      OR push_bit 16 (ucast (ucast (drop_bit 16 n) :: byte))
      OR push_bit 24 (ucast (ucast (drop_bit 24 n) :: byte)) :: 32 word) = (n :: 32 word)"
proof (rule bit_word_eqI)
  fix k assume "k < LENGTH(32)"
  then consider "k < 8" | "8 \<le> k" "k < 16" | "16 \<le> k" "k < 24" | "24 \<le> k" "k < 32"
    by fastforce
  then show "bit (ucast (ucast n :: byte) OR push_bit 8 (ucast (ucast (drop_bit 8 n) :: byte))
      OR push_bit 16 (ucast (ucast (drop_bit 16 n) :: byte))
      OR push_bit 24 (ucast (ucast (drop_bit 24 n) :: byte)) :: 32 word) k = bit n k"
    by cases (auto simp: bit_simps)
qed

lemma le32_numSerials:
  "le32 (ucast (a::byte) OR push_bit 8 (ucast (b::byte)) OR push_bit 16 (ucast (c::byte))
           OR push_bit 24 (ucast (d::byte))) = [a, b, c, d]"
  unfolding le32_def
  apply simp
  apply (intro conjI; rule bit_word_eqI)
     apply (auto simp: bit_simps dest: bit_imp_le_length)
  done

lemma unat_length_byte: "valid_serial s \<Longrightarrow> unat (of_nat (length s) :: byte) = length s"
  by (simp add: valid_serial_def unat_of_nat)

lemma encode_entries_Nil [simp]: "encode_entries [] = []"
  by (simp add: encode_entries_def)

lemma encode_entries_Cons [simp]:
  "encode_entries (s # ss) = of_nat (length s) # s @ encode_entries ss"
  by (simp add: encode_entries_def encode_entry_def)

lemma entry_lines_Nil [simp]: "entry_lines spki m cur [] = []"
  by (simp add: entry_lines_def)

lemma entry_lines_Cons:
  "entry_lines spki m cur (s # ss) =
     (if length spki = 0 then [Record cur s] else if m then [Serial s] else [])
       @ entry_lines spki m cur ss"
  by (simp add: entry_lines_def)

lemma dump_serials_prefix:
  assumes "list_all valid_serial ss" and "unat i + length ss \<le> unat n"
  shows "dump_serials spki m cur n i (encode_entries ss @ rest) =
           (entry_lines spki m cur ss @ fst (dump_serials spki m cur n (i + of_nat (length ss)) rest),
            snd (dump_serials spki m cur n (i + of_nat (length ss)) rest))"
  using assms
proof (induction ss arbitrary: i)
  case Nil
  then show ?case by simp
next
  case (Cons s ss)
  from Cons.prems have lt: "i < n" by (simp add: word_less_nat_alt)
  from Cons.prems have vs: "valid_serial s" and vss: "list_all valid_serial ss" by simp_all
  have step: "unat (i + 1) + length ss \<le> unat n"
    using Cons.prems unat_inc_below [OF lt] by simp
  have idx: "i + 1 + of_nat (length ss) = i + of_nat (length (s # ss))"
    by simp
  show ?case
    using lt Cons.IH [OF vss step]
    by (subst dump_serials.simps)
       (simp add: unat_length_byte [OF vs] idx entry_lines_Cons Let_def split_beta)
qed

section \<open>The loops on an encoded body\<close>

lemma dump_serials_done: "\<not> i < n \<Longrightarrow> dump_serials spki m cur n i c = ([], Inr c)"
  by (subst dump_serials.simps) simp

lemma dump_serials_all:
  assumes "list_all valid_serial ss" and "length ss < 2 ^ 32"
  shows "dump_serials spki m cur (of_nat (length ss)) 0 (encode_entries ss @ rest) =
           (entry_lines spki m cur ss, Inr rest)"
proof -
  have n: "unat (of_nat (length ss) :: 32 word) = length ss"
    using assms(2) by (simp add: unat_of_nat)
  have "dump_serials spki m cur (of_nat (length ss)) 0 (encode_entries ss @ rest) =
          (entry_lines spki m cur ss
             @ fst (dump_serials spki m cur (of_nat (length ss)) (0 + of_nat (length ss)) rest),
           snd (dump_serials spki m cur (of_nat (length ss)) (0 + of_nat (length ss)) rest))"
    by (rule dump_serials_prefix [OF assms(1)]) (simp add: n)
  then show ?thesis by (simp add: dump_serials_done)
qed

lemma length_le32 [simp]: "length (le32 n) = 4"
  by (simp add: le32_def)

lemma dump_loop_Nil [simp]: "dump_loop spki [] = ([], None)"
  by (subst dump_loop.simps) simp

lemma dump_loop_step:
  assumes "length fp = 32"
  shows "dump_loop spki (fp @ a # b # c # d # tail) =
           (case dump_serials spki (spki = fp) (if length spki = 0 then fp else [])
                   (ucast a OR push_bit 8 (ucast b) OR push_bit 16 (ucast c)
                      OR push_bit 24 (ucast d)) 0 tail of
              (out, Inl e) \<Rightarrow> (out, Some e)
            | (out, Inr c3) \<Rightarrow> (out @ fst (dump_loop spki c3), snd (dump_loop spki c3)))"
  by (subst dump_loop.simps)
     (simp add: assms spkiHashLen_def nth_append split_beta Let_def split: sum.split)

lemma dump_loop_block:
  assumes "valid_block b"
  shows "dump_loop spki (encode_block b @ rest) =
           (block_lines spki b @ fst (dump_loop spki rest), snd (dump_loop spki rest))"
proof -
  from assms have fp: "length (fingerprint b) = 32"
    and len: "length (serials b) < 2 ^ 32" and vs: "list_all valid_serial (serials b)"
    by (simp_all add: valid_block_def)
  let ?n = "of_nat (length (serials b)) :: 32 word"
  have c: "encode_block b @ rest =
             fingerprint b @ ucast ?n # ucast (drop_bit 8 ?n) # ucast (drop_bit 16 ?n)
               # ucast (drop_bit 24 ?n) # encode_entries (serials b) @ rest"
    by (simp add: encode_block_def le32_def)
  show ?thesis
    unfolding c dump_loop_step [OF fp] numSerials_le32
    by (simp add: dump_serials_all [OF vs len] block_lines_def)
qed

lemma encode_body_Nil [simp]: "encode_body [] = []"
  by (simp add: encode_body_def)

lemma encode_body_Cons [simp]: "encode_body (b # bs) = encode_block b @ encode_body bs"
  by (simp add: encode_body_def)

lemma encode_body_append: "encode_body (bs @ bs') = encode_body bs @ encode_body bs'"
  by (simp add: encode_body_def)

lemma dump_loop_prefix:
  assumes "list_all valid_block bs"
  shows "dump_loop spki (encode_body bs @ rest) =
           (concat (map (block_lines spki) bs) @ fst (dump_loop spki rest),
            snd (dump_loop spki rest))"
  using assms
  by (induction bs) (simp_all add: dump_loop_block)

lemma dump_loop_body:
  "list_all valid_block bs \<Longrightarrow>
     dump_loop spki (encode_body bs) = (concat (map (block_lines spki) bs), None)"
  using dump_loop_prefix [of bs spki "[]"] by simp

section \<open>Truncated bodies and the converse\<close>

lemma dump_loop_short_hash:
  "c \<noteq> [] \<Longrightarrow> length c < 32 \<Longrightarrow> dump_loop spki c = ([], Some TruncatedAtSPKIHash)"
  by (subst dump_loop.simps) (simp add: spkiHashLen_def)

lemma dump_loop_short_count:
  "32 \<le> length c \<Longrightarrow> length c < 36 \<Longrightarrow> dump_loop spki c = ([], Some TruncatedAtSerialCount)"
  by (subst dump_loop.simps) (auto simp: spkiHashLen_def Let_def)

lemma dump_serials_no_length:
  "i < n \<Longrightarrow> dump_serials spki m cur n i [] = ([], Inl TruncatedAtSerialLength)"
  by (subst dump_serials.simps) simp

lemma dump_serials_short_serial:
  "i < n \<Longrightarrow> length s < unat L \<Longrightarrow>
     dump_serials spki m cur n i (L # s) = ([], Inl TruncatedAtSerial)"
  by (subst dump_serials.simps) simp

lemma split_block_header:
  assumes "36 \<le> length c"
  shows "c = take 32 c @ c ! 32 # c ! 33 # c ! 34 # c ! 35 # drop 36 c"
proof -
  have "drop 32 c = c ! 32 # drop 33 c" "drop 33 c = c ! 33 # drop 34 c"
    "drop 34 c = c ! 34 # drop 35 c" "drop 35 c = c ! 35 # drop 36 c"
    using assms Cons_nth_drop_Suc [of 32 c] Cons_nth_drop_Suc [of 33 c]
      Cons_nth_drop_Suc [of 34 c] Cons_nth_drop_Suc [of 35 c]
    by simp_all
  then have "drop 32 c = c ! 32 # c ! 33 # c ! 34 # c ! 35 # drop 36 c"
    by simp
  then show ?thesis by (metis append_take_drop_id)
qed

lemma dump_serials_Inr:
  assumes "dump_serials spki m cur n i c = (out, Inr c')" and "i \<le> n"
  shows "\<exists>ss. list_all valid_serial ss \<and> unat i + length ss = unat n
            \<and> c = encode_entries ss @ c' \<and> out = entry_lines spki m cur ss"
  using assms
proof (induction spki m cur n i c arbitrary: out rule: dump_serials.induct)
  case (1 spki m cur n i c)
  show ?case
  proof (cases "i < n")
    case False
    with "1.prems" have "i = n" by simp
    moreover from "1.prems" have "out = []" "c' = c"
      by (simp_all add: dump_serials_done [OF False])
    ultimately show ?thesis by (intro exI [of _ "[]"]) simp
  next
    case True
    note lt = this
    let ?L = "unat (c ! 0)"
    let ?s = "take ?L (drop 1 c)"
    let ?c2 = "drop ?L (drop 1 c)"
    from lt "1.prems" have ne: "\<not> length c < 1" and enough: "\<not> length (drop 1 c) < ?L"
      by (auto simp: dump_serials.simps [of _ _ _ n i] Let_def split: if_splits)
    obtain o' r where rec: "dump_serials spki m cur n (i + 1) ?c2 = (o', r)"
      by (cases "dump_serials spki m cur n (i + 1) ?c2")
    from lt ne enough rec "1.prems"
    have r: "r = Inr c'"
      and out: "out = (if length spki = 0 then [Record cur ?s]
                       else if m then [Serial ?s] else []) @ o'"
      by (auto simp: dump_serials.simps [of _ _ _ n i] Let_def)
    have "i + 1 \<le> n" using lt by (rule inc_le)
    with "1.IH" [OF lt ne refl refl enough refl, of o'] rec r
    obtain ss where ss: "list_all valid_serial ss" "unat (i + 1) + length ss = unat n"
      "?c2 = encode_entries ss @ c'" "o' = entry_lines spki m cur ss"
      by auto
    have len_s: "length ?s = ?L" using enough by simp
    have "?L < 256" using unsigned_less [of "c ! 0", where 'a = nat] by simp
    then have vs: "valid_serial ?s" by (simp add: valid_serial_def len_s)
    have c: "c = c ! 0 # ?s @ ?c2"
      using ne by (cases c) simp_all
    have "c = encode_entries (?s # ss) @ c'"
      using c ss(3) len_s by simp
    moreover have "unat i + length (?s # ss) = unat n"
      using ss(2) unat_inc_below [OF lt] by simp
    moreover have "out = entry_lines spki m cur (?s # ss)"
      using out ss(4) by (simp add: entry_lines_Cons)
    ultimately show ?thesis using vs ss(1)
      by (intro exI [of _ "?s # ss"]) simp
  qed
qed

lemma dump_loop_None:
  assumes "dump_loop spki c = (out, None)"
  shows "\<exists>bs. list_all valid_block bs \<and> c = encode_body bs
            \<and> out = concat (map (block_lines spki) bs)"
  using assms
proof (induction c arbitrary: out rule: length_induct)
  case (1 c)
  show ?case
  proof (cases "c = []")
    case True
    with "1.prems" show ?thesis by (intro exI [of _ "[]"]) simp
  next
    case False
    have l32: "32 \<le> length c"
      using False "1.prems" dump_loop_short_hash [of c spki] by (cases "length c < 32") simp_all
    have l36: "36 \<le> length c"
      using l32 "1.prems" dump_loop_short_count [of c spki] by (cases "length c < 36") simp_all
    let ?fp = "take 32 c"
    let ?n = "ucast (c ! 32) OR push_bit 8 (ucast (c ! 33)) OR push_bit 16 (ucast (c ! 34))
                OR push_bit 24 (ucast (c ! 35)) :: 32 word"
    let ?cur = "if length spki = 0 then ?fp else []"
    have fp: "length ?fp = 32" using l32 by simp
    have split: "c = ?fp @ c ! 32 # c ! 33 # c ! 34 # c ! 35 # drop 36 c"
      by (rule split_block_header [OF l36])
    obtain o1 r1 where ds: "dump_serials spki (spki = ?fp) ?cur ?n 0 (drop 36 c) = (o1, r1)"
      by (cases "dump_serials spki (spki = ?fp) ?cur ?n 0 (drop 36 c)")
    have step: "dump_loop spki c =
                  (case r1 of Inl e \<Rightarrow> (o1, Some e)
                   | Inr c3 \<Rightarrow> (o1 @ fst (dump_loop spki c3), snd (dump_loop spki c3)))"
      using dump_loop_step [OF fp, of spki "c ! 32" "c ! 33" "c ! 34" "c ! 35" "drop 36 c"]
        split ds by simp
    with "1.prems" obtain c3 where r1: "r1 = Inr c3"
      and rest: "dump_loop spki c3 = (drop (length o1) out, None)" and o1: "take (length o1) out = o1"
      by (cases r1) (auto simp: prod_eq_iff)
    from ds r1 dump_serials_Inr [of spki "spki = ?fp" ?cur ?n 0 "drop 36 c" o1 c3]
    obtain ss where ss: "list_all valid_serial ss" "length ss = unat ?n"
      "drop 36 c = encode_entries ss @ c3" "o1 = entry_lines spki (spki = ?fp) ?cur ss"
      by auto
    have "length (drop 36 c) = length (encode_entries ss) + length c3"
      using arg_cong [OF ss(3), of length] by simp
    then have "length c3 < length c" using l36 by simp
    with "1.IH" rest obtain bs where bs: "list_all valid_block bs" "c3 = encode_body bs"
      "drop (length o1) out = concat (map (block_lines spki) bs)"
      by blast
    let ?b = "\<lparr>fingerprint = ?fp, serials = ss\<rparr>"
    have "length ss < 2 ^ 32" using ss(2) unsigned_less [of ?n, where 'a = nat] by simp
    then have vb: "valid_block ?b" using fp ss(1) by (simp add: valid_block_def)
    have "of_nat (length ss) = ?n" using ss(2) by simp
    then have "le32 (of_nat (length ss)) = [c ! 32, c ! 33, c ! 34, c ! 35]"
      using le32_numSerials [of "c ! 32" "c ! 33" "c ! 34" "c ! 35"] by simp
    then have enc: "encode_block ?b = ?fp @ c ! 32 # c ! 33 # c ! 34 # c ! 35 # encode_entries ss"
      by (simp add: encode_block_def)
    have "c = encode_body (?b # bs)"
      using split ss(3) bs(2) enc by simp
    moreover have "out = concat (map (block_lines spki) (?b # bs))"
    proof -
      have bl: "block_lines spki ?b = o1"
        unfolding ss(4) by (simp add: block_lines_def)
      have "out = o1 @ drop (length o1) out"
        by (metis o1 append_take_drop_id)
      then have "out = block_lines spki ?b @ concat (map (block_lines spki) bs)"
        unfolding bl bs(3) .
      then show ?thesis by simp
    qed
    ultimately show ?thesis using vb bs(1)
      by (intro exI [of _ "?b # bs"]) simp
  qed
qed

lemma truncated_in_entries:
  assumes "length fp = 32" and "list_all valid_serial ss" and "length ss < unat n"
    and "dump_serials spki (spki = fp) (if length spki = 0 then fp else []) n
           (of_nat (length ss)) rest = ([], Inl e)"
  shows "dump_loop spki (fp @ le32 n @ encode_entries ss @ rest) =
           (entry_lines spki (spki = fp) (if length spki = 0 then fp else []) ss, Some e)"
proof -
  have c: "fp @ le32 n @ encode_entries ss @ rest =
             fp @ ucast n # ucast (drop_bit 8 n) # ucast (drop_bit 16 n)
               # ucast (drop_bit 24 n) # encode_entries ss @ rest"
    by (simp add: le32_def)
  have "unat (0 :: 32 word) + length ss \<le> unat n" using assms(3) by simp
  from dump_serials_prefix [OF assms(2) this, of spki "spki = fp"
      "if length spki = 0 then fp else []" rest] assms(4)
  have "dump_serials spki (spki = fp) (if length spki = 0 then fp else []) n 0
          (encode_entries ss @ rest) =
          (entry_lines spki (spki = fp) (if length spki = 0 then fp else []) ss, Inl e)"
    by simp
  then show ?thesis
    unfolding c dump_loop_step [OF assms(1)] numSerials_le32 by simp
qed

lemma of_nat_length_less:
  assumes "length ss < unat (n :: 32 word)"
  shows "of_nat (length ss) < n"
proof -
  have "length ss < 2 ^ 32" using assms unsigned_less [of n, where 'a = nat] by simp
  then have "unat (of_nat (length ss) :: 32 word) = length ss" by (simp add: unat_of_nat)
  then show ?thesis using assms by (simp add: word_less_nat_alt)
qed

lemma dump_serials_error:
  "dump_serials spki m cur n i c = (out, Inl e) \<Longrightarrow>
     e = TruncatedAtSerialLength \<or> e = TruncatedAtSerial"
proof (induction spki m cur n i c arbitrary: out rule: dump_serials.induct)
  case (1 spki m cur n i c)
  show ?case
  proof (cases "i < n")
    case False
    with "1.prems" show ?thesis by (simp add: dump_serials_done)
  next
    case True
    note lt = this
    show ?thesis
    proof (cases "length c < 1 \<or> length (drop 1 c) < unat (c ! 0)")
      case True
      with lt "1.prems" show ?thesis
        by (auto simp: dump_serials.simps [of _ _ _ n i] Let_def split: if_splits)
    next
      case False
      obtain o' r where rec:
        "dump_serials spki m cur n (i + 1) (drop (unat (c ! 0)) (drop 1 c)) = (o', r)"
        by (cases "dump_serials spki m cur n (i + 1) (drop (unat (c ! 0)) (drop 1 c))")
      with lt False "1.prems" have r: "r = Inl e"
        by (simp add: dump_serials.simps [of _ _ _ n i] Let_def)
      show ?thesis
        using "1.IH" [OF lt _ refl refl _ refl, of o'] False rec r by simp
    qed
  qed
qed

lemma dump_loop_error:
  "dump_loop spki c = (out, Some e) \<Longrightarrow>
     e = TruncatedAtSPKIHash \<or> e = TruncatedAtSerialCount
       \<or> e = TruncatedAtSerialLength \<or> e = TruncatedAtSerial"
proof (induction c arbitrary: out rule: length_induct)
  case (1 c)
  consider "c = []" | "c \<noteq> []" "length c < 32" | "32 \<le> length c" "length c < 36"
    | "36 \<le> length c"
    by fastforce
  then show ?case
  proof cases
    case 1
    with "1.prems" show ?thesis by simp
  next
    case 2
    with "1.prems" show ?thesis by (simp add: dump_loop_short_hash)
  next
    case 3
    with "1.prems" show ?thesis by (simp add: dump_loop_short_count)
  next
    case 4
    let ?fp = "take 32 c"
    let ?n = "ucast (c ! 32) OR push_bit 8 (ucast (c ! 33)) OR push_bit 16 (ucast (c ! 34))
                OR push_bit 24 (ucast (c ! 35)) :: 32 word"
    let ?cur = "if length spki = 0 then ?fp else []"
    have fp: "length ?fp = 32" using 4 by simp
    have split: "c = ?fp @ c ! 32 # c ! 33 # c ! 34 # c ! 35 # drop 36 c"
      by (rule split_block_header [OF 4])
    obtain o1 r1 where ds: "dump_serials spki (spki = ?fp) ?cur ?n 0 (drop 36 c) = (o1, r1)"
      by (cases "dump_serials spki (spki = ?fp) ?cur ?n 0 (drop 36 c)")
    have step: "dump_loop spki c =
                  (case r1 of Inl e \<Rightarrow> (o1, Some e)
                   | Inr c3 \<Rightarrow> (o1 @ fst (dump_loop spki c3), snd (dump_loop spki c3)))"
      using dump_loop_step [OF fp, of spki "c ! 32" "c ! 33" "c ! 34" "c ! 35" "drop 36 c"]
        split ds by simp
    show ?thesis
    proof (cases r1)
      case (Inl e')
      with step "1.prems" have "e' = e" by simp
      with ds Inl show ?thesis using dump_serials_error by blast
    next
      case (Inr c3)
      with step "1.prems" have rest: "dump_loop spki c3 = (fst (dump_loop spki c3), Some e)"
        by (simp add: prod_eq_iff)
      have "length c3 \<le> length (drop 36 c)"
        using ds Inr dump_serials_length by blast
      then have "length c3 < length c" using 4 by simp
      with "1.IH" rest show ?thesis by blast
    qed
  qed
qed

text \<open>
  C3. A body that ends before a block is complete makes the loop of \<open>dump\<close> fail with
  the message of the stage at which the bytes ran out, after the lines of everything
  decoded before. With any complete blocks \<open>bs\<close> in front:
  \<^item> from 1 to 31 bytes where a block starts: "truncated at SPKI hash";
  \<^item> a fingerprint followed by fewer than 4 bytes: "truncated at serial count";
  \<^item> a count \<open>n\<close> followed by fewer than \<open>n\<close> complete entries and nothing more:
    "truncated at serial length" (so a count of 3 with 2 entries present fails there, in
    the third round);
  \<^item> such entries followed by a length byte \<open>L\<close> and fewer than \<open>L\<close> bytes:
    "truncated at serial".
  The loop never stops silently: it ends without an error only on a buffer that is
  exactly a sequence of complete blocks, and when it fails, on any buffer, it fails with
  one of these four messages.
\<close>

theorem dump_loop_truncated:
  assumes "list_all valid_block bs"
  shows "(t \<noteq> [] \<and> length t < 32 \<longrightarrow>
            dump_loop spki (encode_body bs @ t) =
              (concat (map (block_lines spki) bs), Some TruncatedAtSPKIHash))
       \<and> (length fp = 32 \<and> length t < 4 \<longrightarrow>
            dump_loop spki (encode_body bs @ fp @ t) =
              (concat (map (block_lines spki) bs), Some TruncatedAtSerialCount))
       \<and> (length fp = 32 \<and> list_all valid_serial ss \<and> length ss < unat n \<longrightarrow>
            dump_loop spki (encode_body bs @ fp @ le32 n @ encode_entries ss) =
              (concat (map (block_lines spki) bs)
                 @ entry_lines spki (spki = fp) (if length spki = 0 then fp else []) ss,
               Some TruncatedAtSerialLength)
          \<and> (length s < unat L \<longrightarrow>
                dump_loop spki (encode_body bs @ fp @ le32 n @ encode_entries ss @ L # s) =
                  (concat (map (block_lines spki) bs)
                     @ entry_lines spki (spki = fp) (if length spki = 0 then fp else []) ss,
                   Some TruncatedAtSerial)))
       \<and> (dump_loop spki c = (out, None) \<longrightarrow>
             (\<exists>bs'. list_all valid_block bs' \<and> c = encode_body bs'))
       \<and> (dump_loop spki c = (out, Some e) \<longrightarrow>
             e = TruncatedAtSPKIHash \<or> e = TruncatedAtSerialCount
               \<or> e = TruncatedAtSerialLength \<or> e = TruncatedAtSerial)"
proof (intro conjI impI)
  assume "t \<noteq> [] \<and> length t < 32"
  then show "dump_loop spki (encode_body bs @ t) =
               (concat (map (block_lines spki) bs), Some TruncatedAtSPKIHash)"
    by (simp add: dump_loop_prefix [OF assms] dump_loop_short_hash)
next
  assume "length fp = 32 \<and> length t < 4"
  then show "dump_loop spki (encode_body bs @ fp @ t) =
               (concat (map (block_lines spki) bs), Some TruncatedAtSerialCount)"
    by (simp add: dump_loop_prefix [OF assms] dump_loop_short_count)
next
  assume a: "length fp = 32 \<and> list_all valid_serial ss \<and> length ss < unat n"
  then have lt: "of_nat (length ss) < n" by (simp add: of_nat_length_less)
  from a show "dump_loop spki (encode_body bs @ fp @ le32 n @ encode_entries ss) =
                 (concat (map (block_lines spki) bs)
                    @ entry_lines spki (spki = fp) (if length spki = 0 then fp else []) ss,
                  Some TruncatedAtSerialLength)"
    using truncated_in_entries [of fp ss n spki "[]" TruncatedAtSerialLength]
    by (simp add: dump_loop_prefix [OF assms] dump_serials_no_length [OF lt])
  assume "length s < unat L"
  with a show "dump_loop spki (encode_body bs @ fp @ le32 n @ encode_entries ss @ L # s) =
                 (concat (map (block_lines spki) bs)
                    @ entry_lines spki (spki = fp) (if length spki = 0 then fp else []) ss,
                  Some TruncatedAtSerial)"
    using truncated_in_entries [of fp ss n spki "L # s" TruncatedAtSerial]
    by (simp add: dump_loop_prefix [OF assms] dump_serials_short_serial [OF lt])
next
  assume "dump_loop spki c = (out, None)"
  then show "\<exists>bs'. list_all valid_block bs' \<and> c = encode_body bs'"
    using dump_loop_None by blast
next
  assume "dump_loop spki c = (out, Some e)"
  then show "e = TruncatedAtSPKIHash \<or> e = TruncatedAtSerialCount
               \<or> e = TruncatedAtSerialLength \<or> e = TruncatedAtSerial"
    by (rule dump_loop_error)
qed

theorem dump_loop_truncated_witness:
  "dump_loop [] [7] = ([], Some TruncatedAtSPKIHash)
   \<and> dump_loop [] (replicate 32 0 @ [3, 0]) = ([], Some TruncatedAtSerialCount)
   \<and> dump_loop [] (replicate 32 0 @ [3, 0, 0, 0] @ [1, 0xAB] @ [2, 1, 2]) =
       ([Record (replicate 32 0) [0xAB], Record (replicate 32 0) [1, 2]],
        Some TruncatedAtSerialLength)
   \<and> dump_loop [] (replicate 32 0 @ [3, 0, 0, 0] @ [1, 0xAB] @ [2, 1, 2] @ [4, 9, 9]) =
       ([Record (replicate 32 0) [0xAB], Record (replicate 32 0) [1, 2]],
        Some TruncatedAtSerial)
   \<and> (\<exists>bs'. list_all valid_block bs' \<and> [] = encode_body bs')"
  using
    dump_loop_truncated [of "[]" "[7]" "[]" "replicate 32 0" "[[0xAB], [1, 2]]" 3 "[9, 9]" 4
      "[]" "[]" TruncatedAtSPKIHash]
    dump_loop_truncated [of "[]" "[3, 0]" "[]" "replicate 32 0" "[[0xAB], [1, 2]]" 3 "[9, 9]" 4
      "[7]" "[]" TruncatedAtSPKIHash]
  by (simp add: le32_def valid_serial_def entry_lines_def)

section \<open>Dumping a well-formed body\<close>

lemma dump_without_certificate:
  "getHeader ext filename = Inr (header, c) \<Longrightarrow> dump ext filename [] = dump_loop [] c"
  by (simp add: dump_def)

lemma dump_with_certificate:
  "getHeader ext filename = Inr (header, c) \<Longrightarrow> certificateFilename \<noteq> [] \<Longrightarrow>
     readFile ext certificateFilename = Some certBytes \<Longrightarrow>
     certificateSPKI ext certBytes = Some rawSPKI \<Longrightarrow>
     dump ext filename certificateFilename = dump_loop (sha256sum ext rawSPKI) c"
  by (simp add: dump_def)

lemma length_encode_entries:
  "length (encode_entries ss) = sum_list (map (\<lambda>s. 1 + length s) ss)"
  by (induction ss) simp_all

lemma length_encode_block:
  "valid_block b \<Longrightarrow> length (encode_block b) = block_size b"
  by (simp add: encode_block_def block_size_def valid_block_def length_encode_entries)

lemma length_encode_body:
  "list_all valid_block bs \<Longrightarrow> length (encode_body bs) = sum_list (map block_size bs)"
  by (induction bs) (simp_all add: length_encode_block)

lemma filtered_lines:
  "spki \<noteq> [] \<Longrightarrow>
     concat (map (block_lines spki) bs) =
       concat (map (\<lambda>b. map Serial (serials b)) (filter (\<lambda>b. fingerprint b = spki) bs))"
  by (induction bs) (auto simp: block_lines_def entry_lines_def)

lemma unfiltered_lines:
  "concat (map (block_lines []) bs) =
     concat (map (\<lambda>b. map (Record (fingerprint b)) (serials b)) bs)"
  by (induction bs) (auto simp: block_lines_def entry_lines_def)

lemma sample_extern_sel [simp]:
  "readFile (sample_extern files headers digest spkis) = map_of files"
  "jsonValue (sample_extern files headers digest spkis) = map_of headers"
  "certificateSPKI (sample_extern files headers digest spkis) = Some"
  "sha256sum (sample_extern files headers digest spkis) = (\<lambda>raw. digest)"
  "base64Decode (sample_extern files headers digest spkis) = map_of spkis"
  by (simp_all add: sample_extern_def)

lemma getHeader_sample:
  "getHeader (sample_extern ((''crl-set'', sample_crlset body) # files)
       [([0x7B, 0x7D], zero_header)] digest spkis) ''crl-set''
     = Inr (zero_header, body)"
  by (simp add: getHeader_def sample_crlset_def json_Unmarshal_def isSpace_def)

text \<open>
  C5. On a valid CRLSet file, a header that \<open>getHeader\<close> accepts followed by a body that
  is a sequence of valid blocks, the dump runs to completion without an error and writes
  every entry of every block. The length of the body is the sum over its blocks of
  32 + 4 + the sum over the block's entries of 1 + the length of the serial; each round of
  the loop takes exactly the bytes of one block and goes on with the blocks after it; and
  whenever the loop ends without an error on any buffer, the buffer is such a sequence of
  blocks, so that the loop ends exactly at the end of the buffer.
\<close>

theorem dump_consumes_whole_body:
  assumes "list_all valid_block bs"
    and "getHeader ext filename = Inr (header, encode_body bs)"
  shows "dump ext filename [] =
           (concat (map (\<lambda>b. map (Record (fingerprint b)) (serials b)) bs), None)
       \<and> length (encode_body bs) = sum_list (map block_size bs)
       \<and> (bs = pre @ b # post \<longrightarrow>
            length (encode_block b) = block_size b
          \<and> dump_loop spki (encode_body (b # post)) =
              (block_lines spki b @ fst (dump_loop spki (encode_body post)),
               snd (dump_loop spki (encode_body post))))
       \<and> dump_loop spki (encode_body bs) = (concat (map (block_lines spki) bs), None)
       \<and> (dump_loop spki c = (out, None) \<longrightarrow>
            (\<exists>bs'. list_all valid_block bs' \<and> c = encode_body bs'
                \<and> length c = sum_list (map block_size bs')))"
proof (intro conjI impI)
  show "dump ext filename [] =
          (concat (map (\<lambda>b. map (Record (fingerprint b)) (serials b)) bs), None)"
    using dump_without_certificate [OF assms(2)] dump_loop_body [OF assms(1), of "[]"]
    by (simp add: unfiltered_lines)
  show "length (encode_body bs) = sum_list (map block_size bs)"
    by (rule length_encode_body [OF assms(1)])
  show "dump_loop spki (encode_body bs) = (concat (map (block_lines spki) bs), None)"
    by (rule dump_loop_body [OF assms(1)])
next
  assume "bs = pre @ b # post"
  with assms(1) have vb: "valid_block b" by simp
  show "length (encode_block b) = block_size b"
    by (rule length_encode_block [OF vb])
  show "dump_loop spki (encode_body (b # post)) =
          (block_lines spki b @ fst (dump_loop spki (encode_body post)),
           snd (dump_loop spki (encode_body post)))"
    using dump_loop_block [OF vb] by simp
next
  assume "dump_loop spki c = (out, None)"
  then obtain bs' where "list_all valid_block bs'" "c = encode_body bs'"
    using dump_loop_None by blast
  then show "\<exists>bs'. list_all valid_block bs' \<and> c = encode_body bs'
                \<and> length c = sum_list (map block_size bs')"
    using length_encode_body by blast
qed

theorem dump_consumes_whole_body_witness:
  "dump (sample_extern
       [(''crl-set'', sample_crlset (encode_body
           [sample_block 0 [[0xAB], [1, 2]], sample_block 0xFF []]))]
       [([0x7B, 0x7D], zero_header)] [] []) ''crl-set'' []
     = ([Record (replicate 32 0) [0xAB], Record (replicate 32 0) [1, 2]], None)
   \<and> length (encode_body [sample_block 0 [[0xAB], [1, 2]], sample_block 0xFF []]) = 41 + 36
   \<and> length (encode_block (sample_block 0 [[0xAB], [1, 2]])) = 32 + 4 + (1 + 1) + (1 + 2)
   \<and> (\<exists>bs'. list_all valid_block bs' \<and> [] = encode_body bs'
          \<and> length ([] :: byte list) = sum_list (map block_size bs'))"
  using dump_consumes_whole_body [of "[sample_block 0 [[0xAB], [1, 2]], sample_block 0xFF []]"
    "sample_extern
       [(''crl-set'', sample_crlset (encode_body
           [sample_block 0 [[0xAB], [1, 2]], sample_block 0xFF []]))]
       [([0x7B, 0x7D], zero_header)] [] []" "''crl-set''" zero_header
    "[]" "sample_block 0 [[0xAB], [1, 2]]" "[sample_block 0xFF []]" "[]" "[]" "[]"]
  by (simp add: getHeader_sample valid_block_def valid_serial_def sample_block_def
      block_size_def)

text \<open>
  C10. The filtered dump does not stop at the first block whose fingerprint equals the
  filter: on a well-formed file it writes, for every block whose fingerprint equals the
  32-byte filter, that block's serials, so that its output is the concatenation of the
  serial lists of all those blocks in the order of the blocks.
\<close>

theorem dump_filtered_concatenates:
  assumes "list_all valid_block bs"
    and "getHeader ext filename = Inr (header, encode_body bs)"
    and "certificateFilename \<noteq> []"
    and "readFile ext certificateFilename = Some certBytes"
    and "certificateSPKI ext certBytes = Some rawSPKI"
    and "sha256sum ext rawSPKI = spki" and "length spki = 32"
  shows "dump ext filename certificateFilename =
           (concat (map (\<lambda>b. map Serial (serials b))
                      (filter (\<lambda>b. fingerprint b = spki) bs)), None)"
proof -
  from assms(7) have "spki \<noteq> []" by auto
  then show ?thesis
    using dump_with_certificate [OF assms(2-5)] dump_loop_body [OF assms(1), of spki] assms(6)
    by (simp add: filtered_lines)
qed

theorem dump_filtered_concatenates_witness:
  "dump (sample_extern
       [(''crl-set'', sample_crlset (encode_body
           [sample_block 0 [[0xAB]], sample_block 0xFF [[0xEE]], sample_block 0 [[0xCD], [1, 2]]])),
        (''cert.der'', [0x30])]
       [([0x7B, 0x7D], zero_header)] (replicate 32 0) []) ''crl-set'' ''cert.der''
     = ([Serial [0xAB], Serial [0xCD], Serial [1, 2]], None)"
  using dump_filtered_concatenates [of
    "[sample_block 0 [[0xAB]], sample_block 0xFF [[0xEE]], sample_block 0 [[0xCD], [1, 2]]]"
    "sample_extern
       [(''crl-set'', sample_crlset (encode_body
           [sample_block 0 [[0xAB]], sample_block 0xFF [[0xEE]], sample_block 0 [[0xCD], [1, 2]]])),
        (''cert.der'', [0x30])]
       [([0x7B, 0x7D], zero_header)] (replicate 32 0) []" "''crl-set''" zero_header
    "''cert.der''" "[0x30]" "[0x30]" "replicate 32 0"]
  by (simp add: getHeader_sample valid_block_def valid_serial_def sample_block_def)

text \<open>
  C1, as the code has it. On a well-formed file and with a 32-byte filter: when exactly
  one block of the body carries the filter as its fingerprint, the dump writes exactly
  the serials of that block, in their order, and succeeds; when no block carries it, the
  dump writes nothing and succeeds.
\<close>

theorem dump_filtered_one_block:
  assumes "list_all valid_block bs"
    and "getHeader ext filename = Inr (header, encode_body bs)"
    and "certificateFilename \<noteq> []"
    and "readFile ext certificateFilename = Some certBytes"
    and "certificateSPKI ext certBytes = Some rawSPKI"
    and "sha256sum ext rawSPKI = spki" and "length spki = 32"
  shows "(bs = pre @ b # post \<and> fingerprint b = spki
            \<and> list_all (\<lambda>b'. fingerprint b' \<noteq> spki) (pre @ post) \<longrightarrow>
            dump ext filename certificateFilename = (map Serial (serials b), None))
       \<and> (list_all (\<lambda>b'. fingerprint b' \<noteq> spki) bs \<longrightarrow>
            dump ext filename certificateFilename = ([], None))"
proof -
  from assms(7) have ne: "spki \<noteq> []" by auto
  have d: "dump ext filename certificateFilename =
             (concat (map (\<lambda>b. map Serial (serials b))
                        (filter (\<lambda>b. fingerprint b = spki) bs)), None)"
    using dump_with_certificate [OF assms(2-5)] dump_loop_body [OF assms(1), of spki] assms(6)
    by (simp add: filtered_lines [OF ne])
  have none: "filter (\<lambda>b. fingerprint b = spki) xs = []"
    if "list_all (\<lambda>b'. fingerprint b' \<noteq> spki) xs" for xs
    using that by (induction xs) simp_all
  show ?thesis
  proof (intro conjI impI)
    assume "bs = pre @ b # post \<and> fingerprint b = spki
              \<and> list_all (\<lambda>b'. fingerprint b' \<noteq> spki) (pre @ post)"
    then show "dump ext filename certificateFilename = (map Serial (serials b), None)"
      unfolding d by (simp add: none)
  next
    assume "list_all (\<lambda>b'. fingerprint b' \<noteq> spki) bs"
    then show "dump ext filename certificateFilename = ([], None)"
      unfolding d by (simp add: none)
  qed
qed

theorem dump_filtered_one_block_witness:
  "dump (sample_extern
       [(''crl-set'', sample_crlset (encode_body
           [sample_block 0xFF [[0xEE]], sample_block 0 [[0xAB], [1, 2]], sample_block 7 []])),
        (''cert.der'', [0x30])]
       [([0x7B, 0x7D], zero_header)] (replicate 32 0) []) ''crl-set'' ''cert.der''
     = ([Serial [0xAB], Serial [1, 2]], None)
   \<and> dump (sample_extern
       [(''crl-set'', sample_crlset (encode_body
           [sample_block 0xFF [[0xEE]], sample_block 0 [[0xAB], [1, 2]], sample_block 7 []])),
        (''cert.der'', [0x30])]
       [([0x7B, 0x7D], zero_header)] (replicate 32 0x11) []) ''crl-set'' ''cert.der''
     = ([], None)"
  using
    dump_filtered_one_block [of
      "[sample_block 0xFF [[0xEE]], sample_block 0 [[0xAB], [1, 2]], sample_block 7 []]"
      "sample_extern
         [(''crl-set'', sample_crlset (encode_body
             [sample_block 0xFF [[0xEE]], sample_block 0 [[0xAB], [1, 2]], sample_block 7 []])),
          (''cert.der'', [0x30])]
         [([0x7B, 0x7D], zero_header)] (replicate 32 0) []" "''crl-set''" zero_header
      "''cert.der''" "[0x30]" "[0x30]" "replicate 32 0"
      "[sample_block 0xFF [[0xEE]]]" "sample_block 0 [[0xAB], [1, 2]]" "[sample_block 7 []]"]
    dump_filtered_one_block [of
      "[sample_block 0xFF [[0xEE]], sample_block 0 [[0xAB], [1, 2]], sample_block 7 []]"
      "sample_extern
         [(''crl-set'', sample_crlset (encode_body
             [sample_block 0xFF [[0xEE]], sample_block 0 [[0xAB], [1, 2]], sample_block 7 []])),
          (''cert.der'', [0x30])]
         [([0x7B, 0x7D], zero_header)] (replicate 32 0x11) []" "''crl-set''" zero_header
      "''cert.der''" "[0x30]" "[0x30]" "replicate 32 0x11"
      "[sample_block 0xFF [[0xEE]]]" "sample_block 0 [[0xAB], [1, 2]]" "[sample_block 7 []]"]
  by (simp add: getHeader_sample valid_block_def valid_serial_def sample_block_def)

text \<open>
  C1, as the claim states it, fails when two blocks carry the same fingerprint: the dump
  filtered by the fingerprint \<open>00\<close> (32 times) of the file below writes the serials of
  both blocks, which is the serial list of neither.
\<close>

theorem dump_filtered_two_blocks_counterexample:
  "sample_crlset (replicate 32 0 @ [1, 0, 0, 0, 1, 0xAB] @ replicate 32 0 @ [1, 0, 0, 0, 1, 0xCD])
     = sample_crlset (encode_body [sample_block 0 [[0xAB]], sample_block 0 [[0xCD]]])
   \<and> dump (sample_extern
         [(''crl-set'', sample_crlset (replicate 32 0 @ [1, 0, 0, 0, 1, 0xAB]
                                       @ replicate 32 0 @ [1, 0, 0, 0, 1, 0xCD])),
          (''cert.der'', [0x30])]
         [([0x7B, 0x7D], zero_header)] (replicate 32 0) []) ''crl-set'' ''cert.der''
       = ([Serial [0xAB], Serial [0xCD]], None)
   \<and> [Serial [0xAB], Serial [0xCD]] \<noteq> map Serial (serials (sample_block 0 [[0xAB]]))
   \<and> [Serial [0xAB], Serial [0xCD]] \<noteq> map Serial (serials (sample_block 0 [[0xCD]]))"
  by (simp add: dump_def getHeader_def sample_extern_def sample_crlset_def json_Unmarshal_def
      isSpace_def dump_loop.simps dump_serials.simps spkiHashLen_def Let_def nth_append
      encode_block_def le32_def sample_block_def)

section \<open>The header of a CRLSet file\<close>

lemma headerLen_le: "unat (a::byte) OR push_bit 8 (unat (b::byte)) = unat a + 256 * unat b"
proof -
  have "unat a + push_bit 8 (unat b) = unat a OR push_bit 8 (unat b)"
    by (rule disjunctive_add_eq_or)
       (auto simp: bit_eq_iff bit_simps dest: bit_imp_le_length)
  then show ?thesis by (simp add: push_bit_eq_mult)
qed

lemma headerLen_bound: "unat (a::byte) + 256 * unat (b::byte) < 65536"
  using unsigned_less [of a, where 'a = nat] unsigned_less [of b, where 'a = nat] by simp

text \<open>
  C4. \<open>getHeader\<close> reads the first two bytes of the file as an unsigned 16-bit
  little-endian header length (the first byte plus 256 times the second, below \<open>2^16\<close>)
  and takes exactly that many of the following bytes as the header, leaving the bytes
  after them as the body. A file of fewer than 2 bytes fails as truncated at the header
  length; a file whose remainder after the two length bytes is shorter than the declared
  length fails as truncated at the header.
\<close>

theorem getHeader_header_length:
  assumes "readFile ext filename = Some c"
  shows "(length c < 2 \<longrightarrow> getHeader ext filename = Inl TruncatedAtHeaderLength)
       \<and> (2 \<le> length c \<longrightarrow>
            unat (c ! 0) + 256 * unat (c ! 1) < 2 ^ 16
          \<and> (length c - 2 < unat (c ! 0) + 256 * unat (c ! 1) \<longrightarrow>
                getHeader ext filename = Inl TruncatedAtHeader)
          \<and> (unat (c ! 0) + 256 * unat (c ! 1) \<le> length c - 2 \<longrightarrow>
                getHeader ext filename =
                  (case json_Unmarshal ext (take (unat (c ! 0) + 256 * unat (c ! 1)) (drop 2 c)) of
                     None \<Rightarrow> Inl FailedToParseHeader
                   | Some header \<Rightarrow>
                       Inr (header, drop (2 + (unat (c ! 0) + 256 * unat (c ! 1))) c))))"
  using assms headerLen_bound [of "c ! 0" "c ! 1"]
  by (auto simp: getHeader_def headerLen_le Let_def add.commute split: option.splits)

theorem getHeader_header_length_witness:
  "getHeader (sample_extern [(''crl-set'', [7])] [] [] []) ''crl-set''
     = Inl TruncatedAtHeaderLength
   \<and> getHeader (sample_extern [(''crl-set'', [3, 0, 0x7B, 0x7D])] [] [] []) ''crl-set''
     = Inl TruncatedAtHeader
   \<and> getHeader (sample_extern [(''crl-set'', [2, 1, 0x7B, 0x7D])] [] [] []) ''crl-set''
     = Inl TruncatedAtHeader
   \<and> getHeader (sample_extern [(''crl-set'', [2, 0, 0x7B, 0x7D, 9])]
                  [([0x7B, 0x7D], zero_header)] [] []) ''crl-set''
     = Inr (zero_header, [9])"
  using
    getHeader_header_length [of "sample_extern [(''crl-set'', [7])] [] [] []" "''crl-set''" "[7]"]
    getHeader_header_length [of "sample_extern [(''crl-set'', [3, 0, 0x7B, 0x7D])] [] [] []"
      "''crl-set''" "[3, 0, 0x7B, 0x7D]"]
    getHeader_header_length [of "sample_extern [(''crl-set'', [2, 1, 0x7B, 0x7D])] [] [] []"
      "''crl-set''" "[2, 1, 0x7B, 0x7D]"]
    getHeader_header_length [of "sample_extern [(''crl-set'', [2, 0, 0x7B, 0x7D, 9])]
      [([0x7B, 0x7D], zero_header)] [] []" "''crl-set''" "[2, 0, 0x7B, 0x7D, 9]"]
  by (simp add: sample_extern_def json_Unmarshal_def isSpace_def)

lemma getHeader_empty_header:
  "readFile ext filename = Some (0 # 0 # body) \<Longrightarrow>
     getHeader ext filename = Inl FailedToParseHeader"
  by (simp add: getHeader_def json_Unmarshal_def)

text \<open>
  C6. When the header bytes are present, the declared header length being satisfied, but
  \<open>json.Unmarshal\<close> does not decode them as a \<open>crlSetHeader\<close>, \<open>getHeader\<close> fails
  with "Failed to parse header", and so does every operation on the file: \<open>dump\<close>,
  with or without a certificate, writes no record of the body, and \<open>dumpSPKIs\<close> writes
  nothing.
\<close>

theorem malformed_header_is_fatal:
  assumes "readFile ext filename = Some c" and "2 \<le> length c"
    and "unat (c ! 0) + 256 * unat (c ! 1) \<le> length c - 2"
    and "json_Unmarshal ext (take (unat (c ! 0) + 256 * unat (c ! 1)) (drop 2 c)) = None"
  shows "getHeader ext filename = Inl FailedToParseHeader
       \<and> dump ext filename certificateFilename = ([], Some FailedToParseHeader)
       \<and> dumpSPKIs ext filename = ([], Some FailedToParseHeader)"
proof -
  have "getHeader ext filename = Inl FailedToParseHeader"
    using assms by (simp add: getHeader_def headerLen_le Let_def)
  then show ?thesis by (simp add: dump_def dumpSPKIs_def)
qed

theorem malformed_header_is_fatal_witness:
  "getHeader (sample_extern
       [(''crl-set'', [1, 0, 0x7B] @ replicate 32 0 @ [1, 0, 0, 0, 1, 0xAB])]
       [([0x7B, 0x7D], zero_header)] [] []) ''crl-set'' = Inl FailedToParseHeader
   \<and> dump (sample_extern
       [(''crl-set'', [1, 0, 0x7B] @ replicate 32 0 @ [1, 0, 0, 0, 1, 0xAB])]
       [([0x7B, 0x7D], zero_header)] [] []) ''crl-set'' [] = ([], Some FailedToParseHeader)
   \<and> dumpSPKIs (sample_extern
       [(''crl-set'', [1, 0, 0x7B] @ replicate 32 0 @ [1, 0, 0, 0, 1, 0xAB])]
       [([0x7B, 0x7D], zero_header)] [] []) ''crl-set'' = ([], Some FailedToParseHeader)"
  using malformed_header_is_fatal [of
    "sample_extern
       [(''crl-set'', [1, 0, 0x7B] @ replicate 32 0 @ [1, 0, 0, 0, 1, 0xAB])]
       [([0x7B, 0x7D], zero_header)] [] []" "''crl-set''"
    "[1, 0, 0x7B] @ replicate 32 0 @ [1, 0, 0, 0, 1, 0xAB]" "[]"]
  by (simp add: json_Unmarshal_def isSpace_def)

text \<open>
  C2, as the code has it. Take a file whose header \<open>getHeader\<close> accepts (for instance
  the header length 2 and the header \<open>{}\<close>), followed by one block with the fingerprint
  \<open>00\<close> (32 times), the count 2 and the entries \<open>(1, [AB])\<close> and \<open>(2, [01, 02])\<close>.
  The unfiltered dump succeeds and writes the two records \<open>(00 (32 times), AB)\<close> and
  \<open>(00 (32 times), 0102)\<close>; the dump filtered by the fingerprint \<open>00\<close> (32 times)
  writes \<open>AB\<close> and \<open>0102\<close>; the dump filtered by \<open>FF\<close> (32 times) writes nothing.
\<close>

theorem dump_scenario:
  assumes "getHeader ext filename =
             Inr (header, replicate 32 0 @ [2, 0, 0, 0, 1, 0xAB, 2, 0x01, 0x02])"
  shows "dump ext filename [] =
           ([Record (replicate 32 0) [0xAB], Record (replicate 32 0) [0x01, 0x02]], None)
       \<and> (certificateFilename \<noteq> [] \<and> readFile ext certificateFilename = Some certBytes
            \<and> certificateSPKI ext certBytes = Some rawSPKI \<longrightarrow>
            (sha256sum ext rawSPKI = replicate 32 0 \<longrightarrow>
               dump ext filename certificateFilename
                 = ([Serial [0xAB], Serial [0x01, 0x02]], None))
          \<and> (sha256sum ext rawSPKI = replicate 32 0xFF \<longrightarrow>
               dump ext filename certificateFilename = ([], None)))"
proof -
  have l: "dump_loop spki (replicate 32 0 @ [2, 0, 0, 0, 1, 0xAB, 2, 0x01, 0x02]) =
          (if length spki = 0
           then [Record (replicate 32 0) [0xAB], Record (replicate 32 0) [0x01, 0x02]]
           else if spki = replicate 32 0 then [Serial [0xAB], Serial [0x01, 0x02]] else [],
           None)" for spki
    by (simp add: dump_loop.simps dump_serials.simps spkiHashLen_def Let_def nth_append)
  show ?thesis
    using dump_without_certificate [OF assms]
      dump_with_certificate [OF assms, of certificateFilename certBytes rawSPKI]
    by (auto simp: l)
qed

theorem dump_scenario_witness:
  "dump (sample_extern
       [(''crl-set'', sample_crlset (replicate 32 0 @ [2, 0, 0, 0, 1, 0xAB, 2, 0x01, 0x02])),
        (''cert.der'', [0x30])]
       [([0x7B, 0x7D], zero_header)] (replicate 32 0) []) ''crl-set'' []
     = ([Record (replicate 32 0) [0xAB], Record (replicate 32 0) [0x01, 0x02]], None)
   \<and> dump (sample_extern
       [(''crl-set'', sample_crlset (replicate 32 0 @ [2, 0, 0, 0, 1, 0xAB, 2, 0x01, 0x02])),
        (''cert.der'', [0x30])]
       [([0x7B, 0x7D], zero_header)] (replicate 32 0) []) ''crl-set'' ''cert.der''
     = ([Serial [0xAB], Serial [0x01, 0x02]], None)
   \<and> dump (sample_extern
       [(''crl-set'', sample_crlset (replicate 32 0 @ [2, 0, 0, 0, 1, 0xAB, 2, 0x01, 0x02])),
        (''cert.der'', [0x30])]
       [([0x7B, 0x7D], zero_header)] (replicate 32 0xFF) []) ''crl-set'' ''cert.der''
     = ([], None)"
  using
    dump_scenario [of "sample_extern
       [(''crl-set'', sample_crlset (replicate 32 0 @ [2, 0, 0, 0, 1, 0xAB, 2, 0x01, 0x02])),
        (''cert.der'', [0x30])]
       [([0x7B, 0x7D], zero_header)] (replicate 32 0) []" "''crl-set''" zero_header
      "''cert.der''" "[0x30]" "[0x30]"]
    dump_scenario [of "sample_extern
       [(''crl-set'', sample_crlset (replicate 32 0 @ [2, 0, 0, 0, 1, 0xAB, 2, 0x01, 0x02])),
        (''cert.der'', [0x30])]
       [([0x7B, 0x7D], zero_header)] (replicate 32 0xFF) []" "''crl-set''" zero_header
      "''cert.der''" "[0x30]" "[0x30]"]
  by (simp add: getHeader_sample)

text \<open>
  C2, as the claim states it, has the header length 0. The header is then the empty byte
  string, which \<open>json.Unmarshal\<close> rejects (it holds no JSON value), so that
  \<open>getHeader\<close> fails with "Failed to parse header" and the dump writes no record and
  does not succeed, whatever the decoder would make of other inputs (in the instance
  below its table even lists the empty input).
\<close>

theorem header_length_0_counterexample:
  "dump (sample_extern
       [(''crl-set'', [0, 0] @ replicate 32 0 @ [2, 0, 0, 0, 1, 0xAB, 2, 0x01, 0x02])]
       [([], zero_header), ([0x7B, 0x7D], zero_header)] [] []) ''crl-set'' []
     = ([], Some FailedToParseHeader)
   \<and> dump (sample_extern
       [(''crl-set'', [0, 0] @ replicate 32 0 @ [2, 0, 0, 0, 1, 0xAB, 2, 0x01, 0x02])]
       [([], zero_header), ([0x7B, 0x7D], zero_header)] [] []) ''crl-set'' []
     \<noteq> ([Record (replicate 32 0) [0xAB], Record (replicate 32 0) [0x01, 0x02]], None)"
  by (simp add: dump_def getHeader_def json_Unmarshal_def)

section \<open>The policy lists\<close>

lemma dumpSPKIs_range_append:
  "dumpSPKIs_range ext (xs @ ys) = dumpSPKIs_range ext xs @ dumpSPKIs_range ext ys"
  by (induction xs) (simp_all split: option.split)

lemma dumpSPKIs_range_valid:
  "list_all (\<lambda>s. base64Decode ext s \<noteq> None) xs \<Longrightarrow>
     dumpSPKIs_range ext xs = map (\<lambda>s. SPKILine (the (base64Decode ext s))) xs"
  by (induction xs) auto

lemma dumpSPKIs_fields_header:
  "dumpSPKIs_fields ext (headerFields header) =
     dumpSPKIs_range ext
       (BlockedSPKIs header @ KnownInterceptionSPKIs header @ BlockedInterceptionSPKIs header)"
  by (simp add: headerFields_def HasSuffix_def dumpSPKIs_range_append)

lemma getHeader_policy:
  "getHeader (sample_extern ((''crl-set'', 78 # 0 # bytes_of policy_json @ body) # files)
       [(bytes_of policy_json, policy_header)] digest spkis) ''crl-set''
     = Inr (policy_header, body)"
  by (simp add: getHeader_def json_Unmarshal_def isSpace_def bytes_of_def policy_json_def)

text \<open>
  C7. For a header whose three fingerprint lists, taken in the order \<open>BlockedSPKIs\<close>,
  \<open>KnownInterceptionSPKIs\<close>, \<open>BlockedInterceptionSPKIs\<close>, hold valid base64 strings
  and one malformed string, \<open>dumpSPKIs\<close> succeeds and writes the decoded bytes of every
  valid entry, in order, those after the malformed entry included, and exactly one
  diagnostic, for the malformed entry.
\<close>

theorem dumpSPKIs_skips_malformed_entry:
  assumes "getHeader ext filename = Inr (header, rest)"
    and "BlockedSPKIs header @ KnownInterceptionSPKIs header @ BlockedInterceptionSPKIs header
           = xs @ bad # ys"
    and "list_all (\<lambda>s. base64Decode ext s \<noteq> None) (xs @ ys)"
    and "base64Decode ext bad = None"
  shows "dumpSPKIs ext filename =
           (map (\<lambda>s. SPKILine (the (base64Decode ext s))) xs
              @ NotAValidSPKI bad # map (\<lambda>s. SPKILine (the (base64Decode ext s))) ys,
            None)"
proof -
  have "dumpSPKIs ext filename = (dumpSPKIs_range ext (xs @ bad # ys), None)"
    using assms(1,2) by (simp add: dumpSPKIs_def dumpSPKIs_fields_header)
  also have "dumpSPKIs_range ext (xs @ bad # ys) =
               dumpSPKIs_range ext xs @ NotAValidSPKI bad # dumpSPKIs_range ext ys"
    using assms(4) by (simp add: dumpSPKIs_range_append)
  finally show ?thesis
    using assms(3) by (simp add: dumpSPKIs_range_valid)
qed

theorem dumpSPKIs_skips_malformed_entry_witness:
  "dumpSPKIs (sample_extern
       [(''crl-set'', 78 # 0 # bytes_of policy_json @ replicate 32 0 @ [0, 0, 0, 0])]
       [(bytes_of policy_json, policy_header)] []
       [(''AAAA'', [0, 0, 0]), (''/w=='', [0xFF])]) ''crl-set''
     = ([SPKILine [0, 0, 0], NotAValidSPKI ''!'', SPKILine [0xFF]], None)"
proof -
  have header:
    "getHeader (sample_extern
         [(''crl-set'', 78 # 0 # bytes_of policy_json @ replicate 32 0 @ [0, 0, 0, 0])]
         [(bytes_of policy_json, policy_header)] []
         [(''AAAA'', [0, 0, 0]), (''/w=='', [0xFF])]) ''crl-set''
       = Inr (policy_header, replicate 32 0 @ [0, 0, 0, 0])"
    by (rule getHeader_policy)
  show ?thesis
    using dumpSPKIs_skips_malformed_entry [OF header, of "[''AAAA'']" "''!''" "[''/w=='']"]
    by (simp add: policy_header_def)
qed

section \<open>The CRX container\<close>

text \<open>
  C8, as the code has it. \<open>fetch\<close> reads the whole fixed header of 12 bytes before it
  looks at the magic. An input of at least 12 bytes whose first 4 bytes are not \<open>Cr24\<close>
  fails with "Downloaded file doesn't look like a CRX", whatever the bytes after them
  are; an input shorter than 12 bytes fails earlier, with "Failed to parse CRX header",
  whatever its first bytes are.
\<close>

theorem fetch_crx_bad_magic:
  "(12 \<le> length crxBytes \<and> take 4 crxBytes \<noteq> Cr24 \<longrightarrow>
      fetch_crx crxBytes = Inl DoesntLookLikeACRX)
   \<and> (length crxBytes < 12 \<longrightarrow> fetch_crx crxBytes = Inl FailedToParseCRXHeader)"
  by (simp add: fetch_crx_def binary_Read_def)

theorem fetch_crx_bad_magic_witness:
  "fetch_crx [0x58, 0x58, 0x58, 0x58, 3, 0, 0, 0, 0, 0, 0, 0, 1, 2] = Inl DoesntLookLikeACRX
   \<and> fetch_crx [0x43, 0x72, 0x32, 0x34, 3, 0, 0] = Inl FailedToParseCRXHeader"
  using
    fetch_crx_bad_magic [of "[0x58, 0x58, 0x58, 0x58, 3, 0, 0, 0, 0, 0, 0, 0, 1, 2]"]
    fetch_crx_bad_magic [of "[0x43, 0x72, 0x32, 0x34, 3, 0, 0]"]
  by (simp add: Cr24_def)

text \<open>
  C8, as the claim states it, fails on the four bytes \<open>XXXX\<close>: they are not the magic,
  and \<open>fetch\<close> does not fail with the message of a file that is not a CRX, but with the
  one of a header that cannot be read.
\<close>

theorem fetch_crx_short_input_counterexample:
  "take 4 [0x58, 0x58, 0x58, 0x58 :: byte] \<noteq> Cr24
   \<and> fetch_crx [0x58, 0x58, 0x58, 0x58] = Inl FailedToParseCRXHeader
   \<and> fetch_crx [0x58, 0x58, 0x58, 0x58] \<noteq> Inl DoesntLookLikeACRX"
  by (simp add: fetch_crx_def binary_Read_def Cr24_def)

section \<open>The archive reader\<close>

text \<open>
  C9. For every buffer \<open>z\<close> and every negative position, \<open>ReadAt\<close> copies nothing,
  leaves \<open>p\<close> as it is and returns 0 with a nil error. Whenever \<open>ReadAt\<close> returns, its
  error is nil; in particular at a position from 0 to the length of \<open>z\<close> it copies the
  bytes from that position on, as many as fit into \<open>p\<close>, and returns their number with
  a nil error, also when that is fewer than \<open>len(p)\<close>.
\<close>

theorem ReadAt_clamps_and_never_errors:
  "(sint pos < 0 \<longrightarrow> ReadAt z p pos = Some (p, 0, None))
   \<and> (\<forall>p' n e. ReadAt z p pos = Some (p', n, e) \<longrightarrow> e = None)
   \<and> (0 \<le> sint pos \<and> nat (sint pos) \<le> length z \<longrightarrow>
        ReadAt z p pos =
          Some (take (min (length p) (length z - nat (sint pos))) (drop (nat (sint pos)) z)
                  @ drop (min (length p) (length z - nat (sint pos))) p,
                min (length p) (length z - nat (sint pos)), None))"
  by (auto simp: ReadAt_def Let_def)

theorem ReadAt_clamps_and_never_errors_witness:
  "ReadAt [1, 2, 3] [9, 9] (- 1) = Some ([9, 9], 0, None)
   \<and> ReadAt [1, 2, 3] [9, 9] 2 = Some ([3, 9], 1, None)
   \<and> ReadAt [1, 2, 3] [9, 9] 3 = Some ([9, 9], 0, None)"
  using
    ReadAt_clamps_and_never_errors [of "- 1" "[1, 2, 3]" "[9, 9]"]
    ReadAt_clamps_and_never_errors [of 2 "[1, 2, 3]" "[9, 9]"]
    ReadAt_clamps_and_never_errors [of 3 "[1, 2, 3]" "[9, 9]"]
  by simp

end
